theory Spec2Isabelle
  imports Main "HOL-Library.Sublist"
begin

section \<open>Wallpaper rotation: the store, the candidate selector and the controller\<close>

text \<open>
  A shallow embedding of \<^verbatim>\<open>WallpaperManager\<close> (wallpaper-manager.py). The SQLite database
  is a record of its two tables, every method that touches it takes the store and returns
  the new one. What the methods read from outside (the entries of the local directory, the
  clock, the random choice, the exit status of each \<^verbatim>\<open>hyprctl\<close> and \<^verbatim>\<open>rsync\<close> process) is a
  parameter of the model, one per place where the source reads it. An exception that leaves
  a method is a value of its result. Logging is left out. Failures of the database file itself
  (locked, unreadable) are not modelled.
\<close>

subsection \<open>The tables\<close>

text \<open>\<^verbatim>\<open>datetime.now().isoformat()\<close> is a string.\<close>

type_synonym timestamp = string

text \<open>
  A row of \<^verbatim>\<open>wallpaper_history\<close>. Both timestamp columns are nullable; the
  \<^verbatim>\<open>AUTOINCREMENT\<close> id is the position of the row in the list.
\<close>

record image_record =
  filename :: string
  first_displayed_at :: "timestamp option"
  last_displayed_at :: "timestamp option"
  display_count :: int

text \<open>The row of \<^verbatim>\<open>rotation_state\<close> (\<^verbatim>\<open>CHECK (id = 1)\<close> allows one row at most).\<close>

record rotation_row =
  all_images_shown :: bool
  last_reset_at :: "timestamp option"

record store =
  wallpaper_history :: "image_record list"
  rotation_state :: "rotation_row option"

definition empty_store :: store where
  "empty_store = \<lparr>wallpaper_history = [], rotation_state = None\<rparr>"

text \<open>
  \<^verbatim>\<open>init_database\<close>: both \<^verbatim>\<open>CREATE TABLE IF NOT EXISTS\<close> keep existing rows,
  \<^verbatim>\<open>INSERT OR IGNORE INTO rotation_state (id) VALUES (1)\<close> adds the row with its defaults
  when it is missing.
\<close>

definition init_database :: "store \<Rightarrow> store" where
  "init_database st =
     (case rotation_state st of
        None \<Rightarrow> st\<lparr>rotation_state := Some \<lparr>all_images_shown = False, last_reset_at = None\<rparr>\<rparr>
      | Some r \<Rightarrow> st)"

subsection \<open>The image pool\<close>

definition extensions :: "string list" where
  "extensions = [''.png'', ''.jpg'', ''.jpeg'', ''.jxl'', ''.webp'']"

text \<open>
  \<^verbatim>\<open>get_available_images\<close>: for each extension in turn, the entries of the local directory
  matching \<^verbatim>\<open>*<ext>\<close>. The directory is given by the names of its entries; an image is
  identified by its name (\<^verbatim>\<open>img.name\<close>), the path being the directory joined with it.
\<close>

definition get_available_images :: "string list \<Rightarrow> string list" where
  "get_available_images entries =
     concat (map (\<lambda>ext. filter (\<lambda>name. suffix ext name) entries) extensions)"

subsection \<open>The rotation store and the candidate selector\<close>

text \<open>\<^verbatim>\<open>state[0] if state else False\<close> on the row read from \<^verbatim>\<open>rotation_state\<close>.\<close>

definition all_shown_flag :: "store \<Rightarrow> bool" where
  "all_shown_flag st = (case rotation_state st of None \<Rightarrow> False | Some r \<Rightarrow> all_images_shown r)"

text \<open>\<^verbatim>\<open>SELECT filename FROM wallpaper_history WHERE display_count > 0\<close>, as a list.\<close>

definition shown_filenames :: "store \<Rightarrow> string list" where
  "shown_filenames st = map filename (filter (\<lambda>r. display_count r > 0) (wallpaper_history st))"

text \<open>
  The reset inside \<^verbatim>\<open>get_unshown_images\<close>: \<^verbatim>\<open>UPDATE wallpaper_history SET display_count = 0\<close>
  and \<^verbatim>\<open>UPDATE rotation_state SET all_images_shown = 0, last_reset_at = ?\<close>, both
  without a \<^verbatim>\<open>WHERE\<close>.
\<close>

definition reset_rotation :: "timestamp \<Rightarrow> store \<Rightarrow> store" where
  "reset_rotation now st =
     st\<lparr>wallpaper_history := map (\<lambda>r. r\<lparr>display_count := 0\<rparr>) (wallpaper_history st),
        rotation_state :=
          map_option (\<lambda>r. r\<lparr>all_images_shown := False, last_reset_at := Some now\<rparr>)
            (rotation_state st)\<rparr>"

definition get_unshown_images :: "string list \<Rightarrow> timestamp \<Rightarrow> store \<Rightarrow> store \<times> string list" where
  "get_unshown_images entries now st =
     (let all_images = get_available_images entries;
          all_shown = all_shown_flag st;
          st' = (if all_shown then reset_rotation now st else st);
          shown = set (shown_filenames st');
          unshown = filter (\<lambda>img. img \<notin> shown) all_images
      in (st', unshown))"

text \<open>
  The upsert of \<^verbatim>\<open>mark_image_displayed\<close>: \<^verbatim>\<open>INSERT ... VALUES (?, ?, ?, 1)\<close>, and on a
  conflict on the unique column \<^verbatim>\<open>filename\<close> the existing row gets a new
  \<^verbatim>\<open>last_displayed_at\<close> and \<^verbatim>\<open>display_count + 1\<close>.
\<close>

definition upsert :: "string \<Rightarrow> timestamp \<Rightarrow> image_record list \<Rightarrow> image_record list" where
  "upsert f now h =
     (if f \<in> set (map filename h)
      then map (\<lambda>r. if filename r = f
                     then r\<lparr>last_displayed_at := Some now, display_count := display_count r + 1\<rparr>
                     else r) h
      else h @ [\<lparr>filename = f, first_displayed_at = Some now, last_displayed_at = Some now,
                 display_count = 1\<rparr>])"

text \<open>
  A name is the sequence of its bytes, one \<open>char\<close> each. \<^verbatim>\<open>glob\<close> decodes it with the
  filesystem encoding, UTF-8, and the \<^verbatim>\<open>surrogateescape\<close> handler, so a byte that is not part
  of a well-formed UTF-8 sequence becomes a lone surrogate in the \<^verbatim>\<open>str\<close>. The \<^verbatim>\<open>sqlite3\<close>
  module encodes a \<^verbatim>\<open>str\<close> parameter as UTF-8 when it binds it and raises
  \<^verbatim>\<open>UnicodeEncodeError\<close> on a surrogate: a statement that takes the filename as a parameter
  raises exactly when the name is not well-formed UTF-8 (no overlong form, no encoded
  surrogate, nothing above U+10FFFF).
\<close>

definition byte :: "char \<Rightarrow> nat" where
  "byte c = of_char c"

definition between :: "nat \<Rightarrow> nat \<Rightarrow> char \<Rightarrow> bool" where
  "between lo hi c \<longleftrightarrow> lo \<le> byte c \<and> byte c \<le> hi"

definition continuation :: "char \<Rightarrow> bool" where
  "continuation c = between 0x80 0xBF c"

fun valid_utf8 :: "string \<Rightarrow> bool" where
  "valid_utf8 [] = True"
| "valid_utf8 (b0 # rest) =
     (if byte b0 \<le> 0x7F then valid_utf8 rest
      else if between 0xC2 0xDF b0
      then (case rest of
              b1 # r \<Rightarrow> continuation b1 \<and> valid_utf8 r
            | _ \<Rightarrow> False)
      else if between 0xE0 0xEF b0
      then (case rest of
              b1 # b2 # r \<Rightarrow>
                (if byte b0 = 0xE0 then between 0xA0 0xBF b1
                 else if byte b0 = 0xED then between 0x80 0x9F b1
                 else continuation b1)
                \<and> continuation b2 \<and> valid_utf8 r
            | _ \<Rightarrow> False)
      else if between 0xF0 0xF4 b0
      then (case rest of
              b1 # b2 # b3 # r \<Rightarrow>
                (if byte b0 = 0xF0 then between 0x90 0xBF b1
                 else if byte b0 = 0xF4 then between 0x80 0x8F b1
                 else continuation b1)
                \<and> continuation b2 \<and> continuation b3 \<and> valid_utf8 r
            | _ \<Rightarrow> False)
      else False)"

text \<open>
  The exceptions that leave a method. Nothing in \<^verbatim>\<open>mark_image_displayed\<close>,
  \<^verbatim>\<open>change_wallpaper\<close> or \<^verbatim>\<open>run_once\<close> catches them.
\<close>

datatype error = UnicodeEncodeError

text \<open>
  The statements of \<^verbatim>\<open>mark_image_displayed\<close> once the \<^verbatim>\<open>INSERT\<close> has bound its
  parameters: the upsert, then \<^verbatim>\<open>SELECT COUNT( * ) ... WHERE display_count > 0\<close> against the
  number of images in the directory as it is at that moment;
  \<^verbatim>\<open>UPDATE rotation_state SET all_images_shown = 1 WHERE id = 1\<close> changes the row if there
  is one.
\<close>

definition record_display :: "string list \<Rightarrow> timestamp \<Rightarrow> string \<Rightarrow> store \<Rightarrow> store" where
  "record_display entries now f st =
     (let h = upsert f now (wallpaper_history st);
          shown_count = length (filter (\<lambda>r. display_count r > 0) h);
          total_images = length (get_available_images entries)
      in if shown_count \<ge> total_images \<and> total_images > 0
         then \<lparr>wallpaper_history = h,
               rotation_state = map_option (\<lambda>r. r\<lparr>all_images_shown := True\<rparr>) (rotation_state st)\<rparr>
         else \<lparr>wallpaper_history = h, rotation_state = rotation_state st\<rparr>)"

text \<open>
  \<^verbatim>\<open>mark_image_displayed\<close>: the \<^verbatim>\<open>INSERT\<close> is its first statement and takes the filename as
  a parameter. When binding it raises, nothing has been written and nothing is committed.
\<close>

definition mark_image_displayed ::
  "string list \<Rightarrow> timestamp \<Rightarrow> string \<Rightarrow> store \<Rightarrow> error + store" where
  "mark_image_displayed entries now f st =
     (if valid_utf8 f then Inr (record_display entries now f st) else Inl UnicodeEncodeError)"

subsection \<open>Activation through hyprctl\<close>

text \<open>
  \<^verbatim>\<open>subprocess.run\<close> either raises (caught by the \<^verbatim>\<open>except Exception\<close> around the whole
  body) or returns with an exit status.
\<close>

datatype proc_result = Raises | Exits int

text \<open>
  The standard output of \<^verbatim>\<open>hyprctl monitors -j\<close>: not JSON (\<^verbatim>\<open>json.JSONDecodeError\<close>,
  caught next to the call), JSON without the expected \<^verbatim>\<open>m["name"]\<close> (an exception that
  reaches the outer handler), or the list of monitor names.
\<close>

datatype monitors_output = Not_Json | No_Names | Monitor_Names "string list"

record hyprctl =
  preload :: "string \<Rightarrow> proc_result"
  list_monitors :: proc_result
  monitors_stdout :: monitors_output
  wallpaper :: "string \<Rightarrow> string \<Rightarrow> proc_result"

text \<open>
  The loop over the monitors: a non-zero exit status is logged and the loop goes on; an
  exception leaves the loop. The result tells whether the loop ran to its end.
\<close>

fun set_each_monitor :: "(string \<Rightarrow> proc_result) \<Rightarrow> string list \<Rightarrow> bool" where
  "set_each_monitor run [] = True"
| "set_each_monitor run (monitor # rest) =
     (case run monitor of Raises \<Rightarrow> False | Exits rc \<Rightarrow> set_each_monitor run rest)"

text \<open>
  The monitors to address: the configured list, unless it contains \<^verbatim>\<open>"all"\<close> and
  \<^verbatim>\<open>hyprctl monitors -j\<close> exits with 0. \<open>None\<close> is an exception.
\<close>

definition resolve_monitors :: "hyprctl \<Rightarrow> string list \<Rightarrow> string list option" where
  "resolve_monitors h monitors =
     (if ''all'' \<in> set monitors
      then (case list_monitors h of
              Raises \<Rightarrow> None
            | Exits rc \<Rightarrow>
                if rc = 0
                then (case monitors_stdout h of
                        Monitor_Names names \<Rightarrow> Some names
                      | Not_Json \<Rightarrow> Some [''DP-1'']
                      | No_Names \<Rightarrow> None)
                else Some monitors)
      else Some monitors)"

definition set_wallpaper_hyprpaper :: "hyprctl \<Rightarrow> string list \<Rightarrow> string \<Rightarrow> bool" where
  "set_wallpaper_hyprpaper h hyprpaper_monitors image_path =
     (case preload h image_path of
        Raises \<Rightarrow> False
      | Exits rc \<Rightarrow>
          if rc \<noteq> 0 then False
          else (case resolve_monitors h hyprpaper_monitors of
                  None \<Rightarrow> False
                | Some monitors \<Rightarrow> set_each_monitor (\<lambda>monitor. wallpaper h monitor image_path) monitors))"

subsection \<open>One rotation cycle\<close>

text \<open>
  What \<^verbatim>\<open>change_wallpaper\<close> reads from outside, in the order it reads it: the directory and
  the clock at the first \<^verbatim>\<open>get_unshown_images\<close>, the result of \<^verbatim>\<open>sync_images\<close> (which
  catches every exception and returns a boolean), the directory and the clock at the second
  \<^verbatim>\<open>get_unshown_images\<close>, the index drawn by \<^verbatim>\<open>random.choice\<close>, the \<^verbatim>\<open>hyprctl\<close> processes,
  and the directory and the clock inside \<^verbatim>\<open>mark_image_displayed\<close>.
\<close>

record cycle_env =
  entries_first :: "string list"
  now_first :: timestamp
  sync_result :: bool
  entries_retry :: "string list"
  now_retry :: timestamp
  random_index :: nat
  hyprctl_env :: hyprctl
  entries_record :: "string list"
  now_record :: timestamp

text \<open>The calls a cycle makes to the other methods, in order.\<close>

datatype call =
    Get_Unshown_Images
  | Sync_Images
  | Random_Choice string
  | Set_Wallpaper_Hyprpaper string
  | Mark_Image_Displayed string

text \<open>
  What a cycle comes to: the value \<^verbatim>\<open>change_wallpaper\<close> returns (\<open>Inr\<close>) or the exception
  that leaves it (\<open>Inl\<close>), the store it leaves and the calls it made.
\<close>

record outcome =
  returned :: "error + bool"
  final_store :: store
  calls :: "call list"

text \<open>
  The second half of \<^verbatim>\<open>change_wallpaper\<close>, from \<^verbatim>\<open>random.choice\<close> on; it is only reached
  with a non-empty list, where \<^verbatim>\<open>random.choice\<close> returns the element at an index below the
  length.
\<close>

definition select_and_set ::
  "cycle_env \<Rightarrow> string list \<Rightarrow> store \<Rightarrow> call list \<Rightarrow> string list \<Rightarrow> outcome" where
  "select_and_set env hyprpaper_monitors st made unshown_images =
     (let selected_image = unshown_images ! (random_index env mod length unshown_images) in
      if set_wallpaper_hyprpaper (hyprctl_env env) hyprpaper_monitors selected_image
      then (case mark_image_displayed (entries_record env) (now_record env) selected_image st of
              Inl e \<Rightarrow>
                \<lparr>returned = Inl e, final_store = st,
                 calls = made @ [Random_Choice selected_image,
                                 Set_Wallpaper_Hyprpaper selected_image,
                                 Mark_Image_Displayed selected_image]\<rparr>
            | Inr st' \<Rightarrow>
                \<lparr>returned = Inr True, final_store = st',
                 calls = made @ [Random_Choice selected_image,
                                 Set_Wallpaper_Hyprpaper selected_image,
                                 Mark_Image_Displayed selected_image]\<rparr>)
      else \<lparr>returned = Inr False, final_store = st,
            calls = made @ [Random_Choice selected_image, Set_Wallpaper_Hyprpaper selected_image]\<rparr>)"

definition change_wallpaper :: "cycle_env \<Rightarrow> string list \<Rightarrow> store \<Rightarrow> outcome" where
  "change_wallpaper env hyprpaper_monitors st =
     (let (st1, unshown_images) = get_unshown_images (entries_first env) (now_first env) st in
      if unshown_images = []
      then (if sync_result env
            then (let (st2, unshown_images2) =
                        get_unshown_images (entries_retry env) (now_retry env) st1 in
                  if unshown_images2 = []
                  then \<lparr>returned = Inr False, final_store = st2,
                        calls = [Get_Unshown_Images, Sync_Images, Get_Unshown_Images]\<rparr>
                  else select_and_set env hyprpaper_monitors st2
                         [Get_Unshown_Images, Sync_Images, Get_Unshown_Images] unshown_images2)
            else \<lparr>returned = Inr False, final_store = st1,
                  calls = [Get_Unshown_Images, Sync_Images]\<rparr>)
      else select_and_set env hyprpaper_monitors st1 [Get_Unshown_Images] unshown_images)"

text \<open>
  The first half of \<^verbatim>\<open>change_wallpaper\<close>, up to the point where it either gives up or goes
  on to \<^verbatim>\<open>random.choice\<close>: the store, the candidates and the calls made so far.
\<close>

definition selecting :: "cycle_env \<Rightarrow> store \<Rightarrow> store \<times> string list \<times> call list" where
  "selecting env st =
     (let (st1, unshown_images) = get_unshown_images (entries_first env) (now_first env) st in
      if unshown_images = []
      then (if sync_result env
            then (let (st2, unshown_images2) =
                        get_unshown_images (entries_retry env) (now_retry env) st1 in
                  (st2, unshown_images2, [Get_Unshown_Images, Sync_Images, Get_Unshown_Images]))
            else (st1, unshown_images, [Get_Unshown_Images, Sync_Images]))
      else (st1, unshown_images, [Get_Unshown_Images]))"

subsection \<open>Sequences of store operations\<close>

text \<open>
  The two methods that write to the store, as operations applied one after the other while
  the directory stays as it is. A \<^verbatim>\<open>mark_image_displayed\<close> that raises leaves the store as
  it was.
\<close>

datatype store_op = Select_Candidates timestamp | Record_Display string timestamp

fun apply_op :: "string list \<Rightarrow> store_op \<Rightarrow> store \<Rightarrow> store" where
  "apply_op entries (Select_Candidates now) st = fst (get_unshown_images entries now st)"
| "apply_op entries (Record_Display f now) st =
     (case mark_image_displayed entries now f st of Inl e \<Rightarrow> st | Inr st' \<Rightarrow> st')"

text \<open>
  Consecutive calls of \<^verbatim>\<open>mark_image_displayed\<close>, each with its filename and the time of the
  call; the first exception ends the sequence.
\<close>

fun mark_all :: "string list \<Rightarrow> (string \<times> timestamp) list \<Rightarrow> store \<Rightarrow> error + store" where
  "mark_all entries [] st = Inr st"
| "mark_all entries ((f, now) # rest) st =
     (case mark_image_displayed entries now f st of
        Inl e \<Rightarrow> Inl e
      | Inr st' \<Rightarrow> mark_all entries rest st')"

fun displays_from :: "string list \<Rightarrow> store_op \<Rightarrow> bool" where
  "displays_from pool (Select_Candidates now) = True"
| "displays_from pool (Record_Display f now) = (f \<in> set pool)"

subsection \<open>Example stores\<close>

definition fresh_store :: store where
  "fresh_store = init_database empty_store"

text \<open>A store at the end of a rotation over \<^verbatim>\<open>a.png\<close> and \<^verbatim>\<open>b.jpg\<close>.\<close>

definition exhausted_store :: store where
  "exhausted_store =
     \<lparr>wallpaper_history =
        [\<lparr>filename = ''a.png'', first_displayed_at = Some ''2024-01-01T10:00:00'',
          last_displayed_at = Some ''2024-01-01T10:00:00'', display_count = 1\<rparr>,
         \<lparr>filename = ''b.jpg'', first_displayed_at = Some ''2024-01-01T09:30:00'',
          last_displayed_at = Some ''2024-01-01T10:30:00'', display_count = 2\<rparr>],
      rotation_state = Some \<lparr>all_images_shown = True, last_reset_at = None\<rparr>\<rparr>"

text \<open>The same history just after a reset.\<close>

definition reset_store :: store where
  "reset_store =
     \<lparr>wallpaper_history =
        [\<lparr>filename = ''a.png'', first_displayed_at = Some ''2024-01-01T10:00:00'',
          last_displayed_at = Some ''2024-01-01T10:00:00'', display_count = 0\<rparr>,
         \<lparr>filename = ''b.jpg'', first_displayed_at = Some ''2024-01-01T09:30:00'',
          last_displayed_at = Some ''2024-01-01T10:30:00'', display_count = 0\<rparr>],
      rotation_state =
        Some \<lparr>all_images_shown = False, last_reset_at = Some ''2024-01-01T11:00:00''\<rparr>\<rparr>"


subsection \<open>Runs over a pool that does not change\<close>

text \<open>
  What holds of the store while the pool stays the same and only files of the pool are
  displayed: the row of the rotation state is there, no filename has two rows, every row is
  the row of a pool file with a non-negative count, and the flag tells whether the whole pool
  has been shown.
\<close>

definition pool_invariant :: "string list \<Rightarrow> store \<Rightarrow> bool" where
  "pool_invariant pool st \<longleftrightarrow>
     rotation_state st \<noteq> None
     \<and> distinct (map filename (wallpaper_history st))
     \<and> (\<forall>r \<in> set (wallpaper_history st). filename r \<in> set pool \<and> 0 \<le> display_count r)
     \<and> (all_shown_flag st \<longleftrightarrow> set pool \<subseteq> set (shown_filenames st))"

subsection \<open>Example environments\<close>

text \<open>Two monitors reported by \<^verbatim>\<open>hyprctl monitors -j\<close>.\<close>

definition two_monitors ::
  "(string \<Rightarrow> string \<Rightarrow> proc_result) \<Rightarrow> (string \<Rightarrow> proc_result) \<Rightarrow> hyprctl" where
  "two_monitors set_it load =
     \<lparr>preload = load, list_monitors = Exits 0,
      monitors_stdout = Monitor_Names [''DP-1'', ''HDMI-A-1''], wallpaper = set_it\<rparr>"

definition preload_fails :: hyprctl where
  "preload_fails = two_monitors (\<lambda>monitor img. Exits 0) (\<lambda>img. Exits 1)"

definition one_target_fails :: hyprctl where
  "one_target_fails =
     two_monitors (\<lambda>monitor img. if monitor = ''HDMI-A-1'' then Exits 1 else Exits 0)
       (\<lambda>img. Exits 0)"

text \<open>A cycle during which the directory does not change and \<^verbatim>\<open>rsync\<close> succeeds.\<close>

definition steady_cycle :: "string list \<Rightarrow> hyprctl \<Rightarrow> cycle_env" where
  "steady_cycle entries h =
     \<lparr>entries_first = entries, now_first = ''2024-01-01T11:00:00'', sync_result = True,
      entries_retry = entries, now_retry = ''2024-01-01T11:00:05'', random_index = 0,
      hyprctl_env = h, entries_record = entries, now_record = ''2024-01-01T11:00:10''\<rparr>"

text \<open>
  A cycle that starts on a directory without images, where \<^verbatim>\<open>rsync\<close> exits with an error
  after it has transferred \<^verbatim>\<open>a.png\<close>.
\<close>

definition failed_sync_cycle :: cycle_env where
  "failed_sync_cycle =
     (steady_cycle [''wallpaper-history.db''] one_target_fails)
       \<lparr>sync_result := False, entries_retry := [''wallpaper-history.db'', ''a.png'']\<rparr>"

section \<open>Properties\<close>

subsection \<open>The reset\<close>

lemma reset_counts: "\<forall>r \<in> set (wallpaper_history (reset_rotation now st)). display_count r = 0"
  by (simp add: reset_rotation_def)

lemma shown_filenames_reset: "shown_filenames (reset_rotation now st) = []"
  by (simp add: shown_filenames_def reset_rotation_def filter_empty_conv)

lemma all_shown_flag_reset: "\<not> all_shown_flag (reset_rotation now st)"
  by (simp add: all_shown_flag_def reset_rotation_def split: option.splits)

lemma reset_frame:
  "map filename (wallpaper_history (reset_rotation now st)) = map filename (wallpaper_history st)"
  "map first_displayed_at (wallpaper_history (reset_rotation now st)) =
     map first_displayed_at (wallpaper_history st)"
  "map last_displayed_at (wallpaper_history (reset_rotation now st)) =
     map last_displayed_at (wallpaper_history st)"
  by (simp_all add: reset_rotation_def comp_def)

lemma reset_when_already_reset:
  "\<forall>r \<in> set (wallpaper_history st). display_count r = 0 \<Longrightarrow>
     wallpaper_history (reset_rotation now st) = wallpaper_history st"
  by (simp add: reset_rotation_def map_idI)

lemma get_unshown_images_exhausted:
  "all_shown_flag st \<Longrightarrow>
     get_unshown_images entries now st = (reset_rotation now st, get_available_images entries)"
  by (simp add: get_unshown_images_def Let_def shown_filenames_reset)

lemma get_unshown_images_not_exhausted:
  "\<not> all_shown_flag st \<Longrightarrow> fst (get_unshown_images entries now st) = st"
  by (simp add: get_unshown_images_def Let_def)

subsection \<open>The candidates\<close>

text \<open>
  C2. Whatever the directory and the store, \<^verbatim>\<open>get_unshown_images\<close> returns the pool
  filtered by the shown filenames of the store it leaves behind, that is, read after the reset
  if the call made one: no returned filename is among them, the returned set is the pool minus
  the shown set, and an empty pool gives an empty result.
\<close>

theorem get_unshown_images_is_pool_minus_shown:
  "get_unshown_images entries now st = (st', unshown) \<Longrightarrow>
     unshown = filter (\<lambda>img. img \<notin> set (shown_filenames st')) (get_available_images entries)
     \<and> set unshown = set (get_available_images entries) - set (shown_filenames st')
     \<and> (\<forall>f \<in> set unshown. f \<notin> set (shown_filenames st'))
     \<and> (get_available_images entries = [] \<longrightarrow> unshown = [])"
  by (auto simp: get_unshown_images_def Let_def)

theorem get_unshown_images_is_pool_minus_shown_witness:
  "get_unshown_images [''a.png'', ''c.webp'', ''wallpaper-manager.log''] ''2024-01-01T12:00:00''
       (reset_store\<lparr>wallpaper_history := wallpaper_history exhausted_store\<rparr>) =
     (reset_store\<lparr>wallpaper_history := wallpaper_history exhausted_store\<rparr>, [''c.webp''])
   \<and> set [''c.webp''] =
       set (get_available_images [''a.png'', ''c.webp'', ''wallpaper-manager.log''])
       - set (shown_filenames (reset_store\<lparr>wallpaper_history := wallpaper_history exhausted_store\<rparr>))"
proof -
  have run: "get_unshown_images [''a.png'', ''c.webp'', ''wallpaper-manager.log'']
      ''2024-01-01T12:00:00'' (reset_store\<lparr>wallpaper_history := wallpaper_history exhausted_store\<rparr>) =
     (reset_store\<lparr>wallpaper_history := wallpaper_history exhausted_store\<rparr>, [''c.webp''])"
    by code_simp
  from get_unshown_images_is_pool_minus_shown [OF run] show ?thesis
    using run by blast
qed

text \<open>
  C5. When the flag is set, \<^verbatim>\<open>get_unshown_images\<close> makes the reset once (the store it leaves
  is the reset of the store it found: every \<^verbatim>\<open>display_count\<close> 0, the flag cleared,
  \<^verbatim>\<open>last_reset_at\<close> the time of the call) and returns the whole pool.
\<close>

theorem exhausted_select_resets_then_returns_pool:
  "all_shown_flag st \<Longrightarrow>
     get_unshown_images entries now st = (reset_rotation now st, get_available_images entries)
     \<and> (\<forall>r \<in> set (wallpaper_history (reset_rotation now st)). display_count r = 0)
     \<and> \<not> all_shown_flag (reset_rotation now st)
     \<and> map_option last_reset_at (rotation_state (reset_rotation now st)) = Some (Some now)"
proof -
  assume ex: "all_shown_flag st"
  have "map_option last_reset_at (rotation_state (reset_rotation now st)) = Some (Some now)"
    using ex by (auto simp: all_shown_flag_def reset_rotation_def split: option.splits)
  then show ?thesis
    using get_unshown_images_exhausted [OF ex] reset_counts all_shown_flag_reset by blast
qed

theorem exhausted_select_resets_then_returns_pool_witness:
  "all_shown_flag exhausted_store
   \<and> get_unshown_images [''a.png'', ''b.jpg'', ''wallpaper-history.db''] ''2024-01-01T11:00:00''
       exhausted_store = (reset_store, [''a.png'', ''b.jpg''])"
proof -
  have ex: "all_shown_flag exhausted_store"
    by code_simp
  have r: "reset_rotation ''2024-01-01T11:00:00'' exhausted_store = reset_store"
    by code_simp
  have p: "get_available_images [''a.png'', ''b.jpg'', ''wallpaper-history.db''] = [''a.png'', ''b.jpg'']"
    by code_simp
  from exhausted_select_resets_then_returns_pool [OF ex, of "[''a.png'', ''b.jpg'', ''wallpaper-history.db'']"
      "''2024-01-01T11:00:00''"]
  show ?thesis using ex by (simp add: r p)
qed

text \<open>
  C9. In a store that is already reset (every \<^verbatim>\<open>display_count\<close> 0, the flag not set), the
  two \<^verbatim>\<open>UPDATE\<close> statements of the reset leave the flag cleared and every count at 0 (the
  history does not change at all), and \<^verbatim>\<open>get_unshown_images\<close>, which does not run them when
  the flag is not set, leaves the store as it is. Neither has a failing branch.
\<close>

theorem reset_when_already_reset_is_stable:
  "(\<forall>r \<in> set (wallpaper_history st). display_count r = 0) \<and> \<not> all_shown_flag st \<Longrightarrow>
     \<not> all_shown_flag (reset_rotation now st)
     \<and> (\<forall>r \<in> set (wallpaper_history (reset_rotation now st)). display_count r = 0)
     \<and> wallpaper_history (reset_rotation now st) = wallpaper_history st
     \<and> fst (get_unshown_images entries now st) = st"
  by (simp add: all_shown_flag_reset reset_counts reset_when_already_reset
      get_unshown_images_not_exhausted)

theorem reset_when_already_reset_is_stable_witness:
  "map display_count (wallpaper_history reset_store) = [0, 0]
   \<and> \<not> all_shown_flag reset_store
   \<and> \<not> all_shown_flag (reset_rotation ''2024-01-01T12:00:00'' reset_store)
   \<and> map display_count (wallpaper_history (reset_rotation ''2024-01-01T12:00:00'' reset_store)) = [0, 0]
   \<and> wallpaper_history (reset_rotation ''2024-01-01T12:00:00'' reset_store) =
       wallpaper_history reset_store
   \<and> fst (get_unshown_images [''a.png''] ''2024-01-01T12:00:00'' reset_store) = reset_store"
proof -
  have c: "map display_count (wallpaper_history reset_store) = [0, 0]"
    by code_simp
  have h: "(\<forall>r \<in> set (wallpaper_history reset_store). display_count r = 0) \<and> \<not> all_shown_flag reset_store"
    by code_simp
  from reset_when_already_reset_is_stable [OF h, of "''2024-01-01T12:00:00''" "[''a.png'']"]
  show ?thesis using h c by simp
qed

text \<open>
  C10. When the flag is set, the store \<^verbatim>\<open>get_unshown_images\<close> leaves is the reset of the one
  it found whatever the directory holds: with no image in it the call returns the empty list
  and has changed the store all the same. The reset sets every \<^verbatim>\<open>display_count\<close> to 0, clears
  the flag and sets \<^verbatim>\<open>last_reset_at\<close>; the rows of the history, their filenames and their two
  timestamps stay as they were.
\<close>

theorem reset_is_unconditional_and_frames:
  "all_shown_flag st \<Longrightarrow>
     fst (get_unshown_images entries now st) = reset_rotation now st
     \<and> (get_available_images entries = [] \<longrightarrow>
           snd (get_unshown_images entries now st) = []
           \<and> fst (get_unshown_images entries now st) \<noteq> st)
     \<and> (\<forall>r \<in> set (wallpaper_history (reset_rotation now st)). display_count r = 0)
     \<and> rotation_state (reset_rotation now st) =
         map_option (\<lambda>r. r\<lparr>all_images_shown := False, last_reset_at := Some now\<rparr>) (rotation_state st)
     \<and> rotation_state (reset_rotation now st) \<noteq> None
     \<and> map filename (wallpaper_history (reset_rotation now st)) =
         map filename (wallpaper_history st)
     \<and> map first_displayed_at (wallpaper_history (reset_rotation now st)) =
         map first_displayed_at (wallpaper_history st)
     \<and> map last_displayed_at (wallpaper_history (reset_rotation now st)) =
         map last_displayed_at (wallpaper_history st)"
proof -
  assume ex: "all_shown_flag st"
  have neq: "reset_rotation now st \<noteq> st"
    using ex all_shown_flag_reset [of now st] by auto
  have row: "rotation_state (reset_rotation now st) \<noteq> None"
    using ex by (auto simp: all_shown_flag_def reset_rotation_def split: option.splits)
  show ?thesis
    using neq row
    by (simp add: get_unshown_images_exhausted [OF ex] reset_counts reset_frame)
      (simp add: reset_rotation_def)
qed

theorem reset_is_unconditional_and_frames_witness:
  "all_shown_flag exhausted_store
   \<and> get_available_images [''wallpaper-history.db'', ''wallpaper-manager.log''] = []
   \<and> get_unshown_images [''wallpaper-history.db'', ''wallpaper-manager.log'']
        ''2024-01-01T11:00:00'' exhausted_store = (reset_store, [])
   \<and> reset_store \<noteq> exhausted_store"
proof -
  have ex: "all_shown_flag exhausted_store"
    by code_simp
  have r: "reset_rotation ''2024-01-01T11:00:00'' exhausted_store = reset_store"
    by code_simp
  have p: "get_available_images [''wallpaper-history.db'', ''wallpaper-manager.log''] = []"
    by code_simp
  from reset_is_unconditional_and_frames [OF ex,
      of "[''wallpaper-history.db'', ''wallpaper-manager.log'']" "''2024-01-01T11:00:00''"]
  show ?thesis using ex p by (auto simp: r prod_eq_iff)
qed

subsection \<open>Recording a display\<close>

lemma history_mark [simp]:
  "wallpaper_history (record_display entries now f st) = upsert f now (wallpaper_history st)"
  by (simp add: record_display_def Let_def)

lemma row_mark:
  "rotation_state (record_display entries now f st) = None \<longleftrightarrow> rotation_state st = None"
  by (simp add: record_display_def Let_def)

lemma flag_mark:
  "all_shown_flag (record_display entries now f st) \<longleftrightarrow>
     all_shown_flag st \<or>
     (rotation_state st \<noteq> None
      \<and> length (get_available_images entries)
          \<le> length (shown_filenames (record_display entries now f st))
      \<and> get_available_images entries \<noteq> [])"
  by (auto simp: record_display_def Let_def all_shown_flag_def shown_filenames_def
      split: option.splits)




lemma filenames_upsert:
  "map filename (upsert f now h) =
     (if f \<in> set (map filename h) then map filename h else map filename h @ [f])"
  by (induction h) (auto simp: upsert_def)

lemma counts_upsert:
  "\<forall>r \<in> set h. 0 \<le> display_count r \<Longrightarrow> \<forall>r \<in> set (upsert f now h). 0 \<le> display_count r"
  by (auto simp: upsert_def)

lemma shown_bump:
  "\<forall>r \<in> set h. 0 \<le> display_count r \<Longrightarrow>
     set (map filename (filter (\<lambda>r. display_count r > 0)
        (map (\<lambda>r. if filename r = f
                     then r\<lparr>last_displayed_at := Some now, display_count := display_count r + 1\<rparr>
                     else r) h))) =
       set (map filename (filter (\<lambda>r. display_count r > 0) h)) \<union> ({f} \<inter> set (map filename h))"
  by (induction h) auto

lemma shown_upsert:
  "\<forall>r \<in> set h. 0 \<le> display_count r \<Longrightarrow>
     set (map filename (filter (\<lambda>r. display_count r > 0) (upsert f now h))) =
       insert f (set (map filename (filter (\<lambda>r. display_count r > 0) h)))"
  unfolding upsert_def by (simp only: shown_bump split: if_splits) auto

lemma shown_mark:
  "\<forall>r \<in> set (wallpaper_history st). 0 \<le> display_count r \<Longrightarrow>
     set (shown_filenames (record_display entries now f st)) =
       insert f (set (shown_filenames st))"
  unfolding shown_filenames_def history_mark by (rule shown_upsert)

lemma counts_mark:
  "\<forall>r \<in> set (wallpaper_history st). 0 \<le> display_count r \<Longrightarrow>
     \<forall>r \<in> set (wallpaper_history (record_display entries now f st)). 0 \<le> display_count r"
  unfolding history_mark by (rule counts_upsert)







subsection \<open>Exhaustion\<close>

text \<open>
  Consecutive displays keep the row of the rotation state, keep the counts non-negative and
  leave every displayed file among the shown ones.
\<close>

lemma displays_invariant:
  "rotation_state st \<noteq> None \<Longrightarrow> \<forall>r \<in> set (wallpaper_history st). 0 \<le> display_count r \<Longrightarrow>
     rotation_state (fold (\<lambda>(f, now). record_display entries now f) displays st) \<noteq> None
     \<and> (\<forall>r \<in> set (wallpaper_history
            (fold (\<lambda>(f, now). record_display entries now f) displays st)).
           0 \<le> display_count r)
     \<and> set (map fst displays) \<subseteq>
         set (shown_filenames (fold (\<lambda>(f, now). record_display entries now f) displays st))"
proof (induction displays arbitrary: st rule: rev_induct)
  case Nil
  then show ?case by simp
next
  case (snoc d displays)
  obtain f now where d: "d = (f, now)" by (cases d)
  let ?s = "fold (\<lambda>(f, now). record_display entries now f) displays st"
  from snoc have ih: "rotation_state ?s \<noteq> None"
    "\<forall>r \<in> set (wallpaper_history ?s). 0 \<le> display_count r"
    "set (map fst displays) \<subseteq> set (shown_filenames ?s)"
    by blast+
  have step: "fold (\<lambda>(f, now). record_display entries now f) (displays @ [d]) st =
      record_display entries now f ?s"
    by (simp add: d)
  have "rotation_state (record_display entries now f ?s) \<noteq> None"
    using ih(1) by (simp add: row_mark)
  moreover have "set (map fst (displays @ [d])) \<subseteq>
      set (shown_filenames (record_display entries now f ?s))"
    using ih(3) by (auto simp: shown_mark [OF ih(2)] d)
  ultimately show ?case
    unfolding step using counts_mark [OF ih(2), of entries now f] by blast
qed

lemma mark_all_Inr_iff:
  "mark_all entries displays st = Inr st' \<longleftrightarrow>
     list_all valid_utf8 (map fst displays)
     \<and> st' = fold (\<lambda>(f, now). record_display entries now f) displays st"
  by (induction displays arbitrary: st) (auto simp: mark_image_displayed_def split: if_splits)

lemma exhausted_after_recording_whole_pool:
  assumes row: "rotation_state st \<noteq> None"
    and nonneg: "\<forall>r \<in> set (wallpaper_history st). 0 \<le> display_count r"
    and pool: "get_available_images entries \<noteq> []"
    and distinct: "distinct (map fst displays)"
    and n: "length displays = length (get_available_images entries)"
  shows "all_shown_flag (fold (\<lambda>(f, now). record_display entries now f) displays st)"
proof -
  from pool n obtain d before where split: "displays = before @ [d]"
    by (cases displays rule: rev_cases) auto
  obtain f now where d: "d = (f, now)" by (cases d)
  let ?run = "fold (\<lambda>(f, now). record_display entries now f)"
  let ?s = "?run before st"
  have last: "?run displays st = record_display entries now f ?s"
    by (simp add: split d)
  have rs: "rotation_state ?s \<noteq> None"
    using displays_invariant [OF row nonneg] by blast
  have "set (map fst displays) \<subseteq> set (shown_filenames (?run displays st))"
    using displays_invariant [OF row nonneg] by blast
  then have "card (set (map fst displays)) \<le> card (set (shown_filenames (?run displays st)))"
    by (intro card_mono) auto
  also have "\<dots> \<le> length (shown_filenames (?run displays st))"
    by (rule card_length)
  finally have "length (get_available_images entries)
      \<le> length (shown_filenames (?run displays st))"
    using distinct_card [OF distinct] n by simp
  then show ?thesis
    unfolding last using rs pool by (simp add: flag_mark)
qed

text \<open>
  C3. Take a directory with \<open>N \<ge> 1\<close> images that stays as it is, and a freshly reset store
  (its \<^verbatim>\<open>rotation_state\<close> row there, the flag not set, every count 0). After \<open>N\<close> calls of
  \<^verbatim>\<open>mark_image_displayed\<close> that all return, one for each of the \<open>N\<close> distinct filenames of
  the pool, the flag is set.
\<close>

theorem exhausted_after_displaying_whole_pool:
  assumes row: "rotation_state st \<noteq> None"
    and fresh: "\<not> all_shown_flag st \<and> (\<forall>r \<in> set (wallpaper_history st). display_count r = 0)"
    and pool: "get_available_images entries \<noteq> []"
    and distinct: "distinct (map fst displays)"
    and covering: "set (map fst displays) = set (get_available_images entries)"
    and n: "length displays = length (get_available_images entries)"
    and successful: "mark_all entries displays st = Inr st'"
  shows "all_shown_flag st'"
proof -
  have nonneg: "\<forall>r \<in> set (wallpaper_history st). 0 \<le> display_count r"
    using fresh by simp
  have "st' = fold (\<lambda>(f, now). record_display entries now f) displays st"
    using successful by (simp only: mark_all_Inr_iff)
  then show ?thesis
    using exhausted_after_recording_whole_pool [OF row nonneg pool distinct n] by simp
qed

theorem exhausted_after_displaying_whole_pool_witness:
  "map display_count (wallpaper_history reset_store) = [0, 0]
   \<and> \<not> all_shown_flag reset_store
   \<and> get_available_images [''a.png'', ''wallpaper-history.db'', ''b.jpg''] = [''a.png'', ''b.jpg'']
   \<and> mark_all [''a.png'', ''wallpaper-history.db'', ''b.jpg'']
        [(''b.jpg'', ''2024-01-01T12:00:00''), (''a.png'', ''2024-01-01T12:30:00'')] reset_store =
      Inr (record_display [''a.png'', ''wallpaper-history.db'', ''b.jpg''] ''2024-01-01T12:30:00''
             ''a.png''
             (record_display [''a.png'', ''wallpaper-history.db'', ''b.jpg'']
                ''2024-01-01T12:00:00'' ''b.jpg'' reset_store))
   \<and> all_shown_flag
       (record_display [''a.png'', ''wallpaper-history.db'', ''b.jpg''] ''2024-01-01T12:30:00''
          ''a.png''
          (record_display [''a.png'', ''wallpaper-history.db'', ''b.jpg'']
             ''2024-01-01T12:00:00'' ''b.jpg'' reset_store))"
proof -
  let ?entries = "[''a.png'', ''wallpaper-history.db'', ''b.jpg'']"
  let ?displays = "[(''b.jpg'', ''2024-01-01T12:00:00''), (''a.png'', ''2024-01-01T12:30:00'')]"
  have c: "map display_count (wallpaper_history reset_store) = [0, 0]"
    by code_simp
  have row: "rotation_state reset_store \<noteq> None"
    by code_simp
  have fresh: "\<not> all_shown_flag reset_store
      \<and> (\<forall>r \<in> set (wallpaper_history reset_store). display_count r = 0)"
    by code_simp
  have p: "get_available_images ?entries = [''a.png'', ''b.jpg'']"
    by code_simp
  have pool: "get_available_images ?entries \<noteq> []"
    by (simp add: p)
  have d: "distinct (map fst ?displays)"
    by simp
  have cov: "set (map fst ?displays) = set (get_available_images ?entries)"
    by (auto simp: p)
  have n: "length ?displays = length (get_available_images ?entries)"
    by (simp add: p)
  have ok: "mark_all ?entries ?displays reset_store =
      Inr (record_display ?entries ''2024-01-01T12:30:00'' ''a.png''
             (record_display ?entries ''2024-01-01T12:00:00'' ''b.jpg'' reset_store))"
    by code_simp
  from exhausted_after_displaying_whole_pool [OF row fresh pool d cov n ok]
  show ?thesis using c fresh p ok by blast
qed

subsection \<open>The flag and the pool\<close>

lemma distinct_concat_filters:
  "distinct es \<Longrightarrow> distinct exts \<Longrightarrow>
   (\<And>a b x. a \<in> set exts \<Longrightarrow> b \<in> set exts \<Longrightarrow> P a x \<Longrightarrow> P b x \<Longrightarrow> a = b) \<Longrightarrow>
   distinct (concat (map (\<lambda>e. filter (P e) es) exts))"
proof (induction exts)
  case Nil
  then show ?case by simp
next
  case (Cons e exts)
  have "distinct (concat (map (\<lambda>e. filter (P e) es) exts))"
    using Cons by simp
  moreover have "set (filter (P e) es) \<inter> set (concat (map (\<lambda>e. filter (P e) es) exts)) = {}"
    using Cons.prems(2) Cons.prems(3) [of e] by fastforce
  ultimately show ?case
    using Cons.prems(1) by simp
qed

lemma no_two_extensions:
  assumes "a \<in> set extensions" "b \<in> set extensions" "suffix a x" "suffix b x"
  shows "a = b"
proof -
  have "suffix a b \<or> suffix b a"
    using assms(3,4) suffix_same_cases by blast
  with assms(1,2) show ?thesis
    by (auto simp: extensions_def suffix_to_prefix)
qed

lemma distinct_pool: "distinct entries \<Longrightarrow> distinct (get_available_images entries)"
  unfolding get_available_images_def
proof (rule distinct_concat_filters)
  show "distinct extensions"
    by (simp add: extensions_def)
qed (auto intro: no_two_extensions)

lemma shown_in_history: "set (shown_filenames st) \<subseteq> set (map filename (wallpaper_history st))"
  by (auto simp: shown_filenames_def)

lemma invariant_fresh: "pool \<noteq> [] \<Longrightarrow> pool_invariant pool fresh_store"
  by (cases pool) (auto simp: pool_invariant_def fresh_store_def init_database_def empty_store_def
      all_shown_flag_def shown_filenames_def)

lemma invariant_reset:
  assumes "pool \<noteq> []" "pool_invariant pool st"
  shows "pool_invariant pool (reset_rotation now st)"
proof -
  have "rotation_state (reset_rotation now st) \<noteq> None"
    using assms(2) by (auto simp: pool_invariant_def reset_rotation_def)
  moreover have "\<not> set pool \<subseteq> set (shown_filenames (reset_rotation now st))"
    using assms(1) by (cases pool) (auto simp: shown_filenames_reset)
  moreover have "\<forall>r \<in> set (wallpaper_history (reset_rotation now st)). filename r \<in> set pool \<and> 0 \<le> display_count r"
    using assms(2) by (auto simp: pool_invariant_def reset_rotation_def)
  ultimately show ?thesis
    using assms(2) by (simp add: pool_invariant_def reset_frame all_shown_flag_reset)
qed

lemma invariant_select:
  "pool \<noteq> [] \<Longrightarrow> pool_invariant pool st \<Longrightarrow> pool_invariant pool (fst (get_unshown_images entries now st))"
  by (cases "all_shown_flag st")
    (simp_all add: get_unshown_images_exhausted get_unshown_images_not_exhausted invariant_reset)

lemma names_upsert:
  "set (map filename (upsert f now h)) = insert f (set (map filename h))"
  by (auto simp: filenames_upsert)

lemma distinct_upsert:
  "distinct (map filename h) \<Longrightarrow> distinct (map filename (upsert f now h))"
  by (simp add: filenames_upsert)

lemma names_in_pool_upsert:
  assumes "\<forall>r \<in> set h. filename r \<in> set pool" "f \<in> set pool"
  shows "\<forall>r \<in> set (upsert f now h). filename r \<in> set pool"
proof
  fix r
  assume "r \<in> set (upsert f now h)"
  then have "filename r \<in> set (map filename (upsert f now h))"
    by (simp only: set_map) (rule imageI)
  then have "filename r = f \<or> filename r \<in> set (map filename h)"
    by (simp only: names_upsert insert_iff)
  then show "filename r \<in> set pool"
    using assms by auto
qed

lemma full_count_iff:
  assumes sub: "set xs \<subseteq> set pool" and dx: "distinct xs" and dp: "distinct pool"
  shows "length pool \<le> length xs \<longleftrightarrow> set pool \<subseteq> set xs"
proof
  assume "length pool \<le> length xs"
  then have "card (set pool) \<le> card (set xs)"
    using dx dp by (simp add: distinct_card)
  with sub have "set xs = set pool"
    by (intro card_seteq) auto
  then show "set pool \<subseteq> set xs" by simp
next
  assume "set pool \<subseteq> set xs"
  then have "card (set pool) \<le> card (set xs)"
    by (intro card_mono) auto
  then show "length pool \<le> length xs"
    using dx dp by (simp add: distinct_card)
qed

lemma invariant_mark:
  assumes pool: "get_available_images entries = pool" "distinct pool"
    and f: "f \<in> set pool" and inv: "pool_invariant pool st"
  shows "pool_invariant pool (record_display entries now f st)"
proof -
  let ?st = "record_display entries now f st"
  from inv have row: "rotation_state st \<noteq> None"
    and dist: "distinct (map filename (wallpaper_history st))"
    and names: "\<forall>r \<in> set (wallpaper_history st). filename r \<in> set pool"
    and nonneg: "\<forall>r \<in> set (wallpaper_history st). 0 \<le> display_count r"
    and flag: "all_shown_flag st \<longleftrightarrow> set pool \<subseteq> set (shown_filenames st)"
    by (auto simp: pool_invariant_def)
  have row': "rotation_state ?st \<noteq> None"
    using row by (simp add: row_mark)
  have dist': "distinct (map filename (wallpaper_history ?st))"
    unfolding history_mark using dist by (rule distinct_upsert)
  have names': "\<forall>r \<in> set (wallpaper_history ?st). filename r \<in> set pool"
    unfolding history_mark using names f by (rule names_in_pool_upsert)
  have nonneg': "\<forall>r \<in> set (wallpaper_history ?st). 0 \<le> display_count r"
    using nonneg by (rule counts_mark)
  have dshown: "distinct (shown_filenames ?st)"
    unfolding shown_filenames_def using dist' by (rule distinct_map_filter)
  have sub: "set (shown_filenames ?st) \<subseteq> set pool"
    using shown_in_history [of ?st] names' by auto
  have count: "length pool \<le> length (shown_filenames ?st) \<longleftrightarrow> set pool \<subseteq> set (shown_filenames ?st)"
    using sub dshown pool(2) by (rule full_count_iff)
  have mono: "set (shown_filenames st) \<subseteq> set (shown_filenames ?st)"
    unfolding shown_mark [OF nonneg] by blast
  have ne: "pool \<noteq> []" using f by auto
  have flag': "all_shown_flag ?st \<longleftrightarrow> set pool \<subseteq> set (shown_filenames ?st)"
  proof
    assume "all_shown_flag ?st"
    then have "all_shown_flag st \<or> length pool \<le> length (shown_filenames ?st)"
      unfolding flag_mark pool(1) by blast
    then show "set pool \<subseteq> set (shown_filenames ?st)"
      using flag mono count by blast
  next
    assume "set pool \<subseteq> set (shown_filenames ?st)"
    then have "length pool \<le> length (shown_filenames ?st)"
      using count by blast
    then show "all_shown_flag ?st"
      unfolding flag_mark pool(1) using row ne by blast
  qed
  show ?thesis
    unfolding pool_invariant_def using row' dist' names' nonneg' flag' by blast
qed

lemma invariant_run:
  assumes pool: "get_available_images entries = pool" "distinct pool" "pool \<noteq> []"
  shows "list_all (displays_from pool) ops \<Longrightarrow> pool_invariant pool st \<Longrightarrow>
      pool_invariant pool (fold (apply_op entries) ops st)"
proof (induction ops arbitrary: st)
  case Nil
  then show ?case by simp
next
  case (Cons op ops)
  have "pool_invariant pool (apply_op entries op st)"
  proof (cases op)
    case (Select_Candidates now)
    then show ?thesis using Cons.prems(2) pool(3) by (simp add: invariant_select)
  next
    case (Record_Display f now)
    then show ?thesis
      using Cons.prems pool
      by (cases "valid_utf8 f") (simp_all add: invariant_mark mark_image_displayed_def)
  qed
  then show ?case using Cons by simp
qed

text \<open>
  C1 (as amended). Take a directory whose entries have distinct names and which holds at
  least one image, and let it stay as it is. In every store reached from the freshly
  initialised one by calls of \<^verbatim>\<open>get_unshown_images\<close> and calls of \<^verbatim>\<open>mark_image_displayed\<close>
  on filenames of the pool, the flag is set exactly when every filename of the pool has a
  row with \<^verbatim>\<open>display_count > 0\<close>.
\<close>

theorem flag_matches_pool_over_fixed_pool:
  assumes "get_available_images entries \<noteq> []" "distinct entries"
    and "list_all (displays_from (get_available_images entries)) ops"
  shows "all_shown_flag (fold (apply_op entries) ops fresh_store) \<longleftrightarrow>
     set (get_available_images entries)
       \<subseteq> set (shown_filenames (fold (apply_op entries) ops fresh_store))"
  using invariant_run [OF refl distinct_pool [OF assms(2)] assms(1) assms(3)
      invariant_fresh [OF assms(1)]]
  by (simp add: pool_invariant_def)

theorem flag_matches_pool_over_fixed_pool_witness:
  "get_available_images [''a.png'', ''wallpaper-history.db'', ''b.jpg''] = [''a.png'', ''b.jpg'']
   \<and> all_shown_flag
       (fold (apply_op [''a.png'', ''wallpaper-history.db'', ''b.jpg''])
          [Select_Candidates ''2024-01-01T11:00:00'', Record_Display ''b.jpg'' ''2024-01-01T11:00:10'',
           Select_Candidates ''2024-01-01T11:30:00'', Record_Display ''a.png'' ''2024-01-01T11:30:10'']
          fresh_store)
   \<and> set (get_available_images [''a.png'', ''wallpaper-history.db'', ''b.jpg''])
       \<subseteq> set (shown_filenames
            (fold (apply_op [''a.png'', ''wallpaper-history.db'', ''b.jpg''])
               [Select_Candidates ''2024-01-01T11:00:00'', Record_Display ''b.jpg'' ''2024-01-01T11:00:10'',
                Select_Candidates ''2024-01-01T11:30:00'', Record_Display ''a.png'' ''2024-01-01T11:30:10'']
               fresh_store))"
proof -
  let ?entries = "[''a.png'', ''wallpaper-history.db'', ''b.jpg'']"
  let ?ops = "[Select_Candidates ''2024-01-01T11:00:00'', Record_Display ''b.jpg'' ''2024-01-01T11:00:10'',
           Select_Candidates ''2024-01-01T11:30:00'', Record_Display ''a.png'' ''2024-01-01T11:30:10'']"
  have p: "get_available_images ?entries = [''a.png'', ''b.jpg'']"
    by code_simp
  have ne: "get_available_images ?entries \<noteq> []"
    by (simp add: p)
  have d: "distinct ?entries"
    by simp
  have ops: "list_all (displays_from (get_available_images ?entries)) ?ops"
    by (simp add: p)
  have flag: "all_shown_flag (fold (apply_op ?entries) ?ops fresh_store)"
    by code_simp
  from flag_matches_pool_over_fixed_pool [OF ne d ops] show ?thesis
    using p flag by blast
qed

text \<open>
  C1 as stated fails once the directory changes. After \<^verbatim>\<open>a.png\<close>, the only image, has been
  displayed the flag is set; when \<^verbatim>\<open>b.png\<close> then arrives in the directory the flag is still
  set although \<^verbatim>\<open>b.png\<close> has no row: the flag is written by \<^verbatim>\<open>mark_image_displayed\<close> and
  \<^verbatim>\<open>get_unshown_images\<close> only, nothing updates it when files come or go.
\<close>

theorem flag_stale_when_pool_grows:
  "\<not> (all_shown_flag
         (fold (apply_op [''a.png''])
            [Select_Candidates ''2024-01-01T11:00:00'', Record_Display ''a.png'' ''2024-01-01T11:00:10'']
            fresh_store)
       \<longleftrightarrow> set (get_available_images [''a.png'', ''b.png''])
            \<subseteq> set (shown_filenames
                 (fold (apply_op [''a.png''])
                    [Select_Candidates ''2024-01-01T11:00:00'',
                     Record_Display ''a.png'' ''2024-01-01T11:00:10'']
                    fresh_store)))"
  by code_simp

text \<open>
  The test in \<^verbatim>\<open>mark_image_displayed\<close> compares the number of rows with
  \<^verbatim>\<open>display_count > 0\<close>, rows of files that have left the directory included, with the number
  of images in the directory: with the row of a deleted \<^verbatim>\<open>x.png\<close> still counted, displaying
  \<^verbatim>\<open>a.png\<close> sets the flag although \<^verbatim>\<open>b.png\<close> has not been shown.
\<close>

lemma stale_row_counts_towards_pool_size:
  "mark_all [''x.png'', ''a.png''] [(''x.png'', ''2024-01-01T09:00:00'')] fresh_store =
     Inr (record_display [''x.png'', ''a.png''] ''2024-01-01T09:00:00'' ''x.png'' fresh_store)
   \<and> mark_image_displayed [''a.png'', ''b.png''] ''2024-01-02T09:00:00'' ''a.png''
        (record_display [''x.png'', ''a.png''] ''2024-01-01T09:00:00'' ''x.png'' fresh_store) =
     Inr (record_display [''a.png'', ''b.png''] ''2024-01-02T09:00:00'' ''a.png''
        (record_display [''x.png'', ''a.png''] ''2024-01-01T09:00:00'' ''x.png'' fresh_store))
   \<and> all_shown_flag
     (record_display [''a.png'', ''b.png''] ''2024-01-02T09:00:00'' ''a.png''
        (record_display [''x.png'', ''a.png''] ''2024-01-01T09:00:00'' ''x.png'' fresh_store))
   \<and> ''b.png'' \<notin> set (shown_filenames
        (record_display [''a.png'', ''b.png''] ''2024-01-02T09:00:00'' ''a.png''
           (record_display [''x.png'', ''a.png''] ''2024-01-01T09:00:00'' ''x.png'' fresh_store)))"
  by code_simp

subsection \<open>The rotation cycle\<close>

lemma change_wallpaper_phases:
  "change_wallpaper env mons st =
     (case selecting env st of
        (st2, unshown, made) \<Rightarrow>
          if unshown = [] then \<lparr>returned = Inr False, final_store = st2, calls = made\<rparr>
          else select_and_set env mons st2 made unshown)"
  by (simp add: change_wallpaper_def selecting_def Let_def split: prod.splits)

lemma flag_after_select: "\<not> all_shown_flag (fst (get_unshown_images entries now st))"
  by (cases "all_shown_flag st")
    (simp_all add: get_unshown_images_exhausted get_unshown_images_not_exhausted all_shown_flag_reset)

lemma store_after_select:
  "fst (get_unshown_images entries now st) = (if all_shown_flag st then reset_rotation now st else st)"
  by (simp add: get_unshown_images_exhausted get_unshown_images_not_exhausted)

lemma second_select_keeps_store:
  "fst (get_unshown_images e2 t2 (fst (get_unshown_images e1 t1 st))) = fst (get_unshown_images e1 t1 st)"
  by (rule get_unshown_images_not_exhausted) (rule flag_after_select)

lemma selecting_store:
  "fst (selecting env st) = (if all_shown_flag st then reset_rotation (now_first env) st else st)"
proof -
  obtain st1 u1 where g1: "get_unshown_images (entries_first env) (now_first env) st = (st1, u1)"
    by (cases "get_unshown_images (entries_first env) (now_first env) st")
  have s1: "st1 = (if all_shown_flag st then reset_rotation (now_first env) st else st)"
    using store_after_select [of "entries_first env" "now_first env" st] g1 by simp
  have s2: "fst (get_unshown_images (entries_retry env) (now_retry env) st1) = st1"
    using second_select_keeps_store [of "entries_retry env" "now_retry env" "entries_first env" "now_first env" st] g1
    by simp
  obtain st2 u2 where g2: "get_unshown_images (entries_retry env) (now_retry env) st1 = (st2, u2)"
    by (cases "get_unshown_images (entries_retry env) (now_retry env) st1")
  have "st2 = st1"
    using s2 g2 by simp
  then have "fst (selecting env st) = st1"
    by (simp add: selecting_def g1 g2)
  then show ?thesis unfolding s1 .
qed

lemma calls_select_and_set:
  "count_list (calls (select_and_set env mons s made u)) Sync_Images = count_list made Sync_Images"
  "count_list (calls (select_and_set env mons s made u)) Get_Unshown_Images =
     count_list made Get_Unshown_Images"
  by (simp_all add: select_and_set_def Let_def split: sum.splits)





text \<open>
  C4 (as amended). When \<^verbatim>\<open>set_wallpaper_hyprpaper\<close> returns false for the selected image,
  \<^verbatim>\<open>change_wallpaper\<close> returns false and does not call \<^verbatim>\<open>mark_image_displayed\<close>: the store
  it leaves is the store left by the selection of the candidates. That store is the one the
  cycle started with when the flag was not set, and its reset when the flag was set.
\<close>

theorem failed_activation_skips_recording:
  assumes sel: "selecting env st = (st2, unshown, made)" and ne: "unshown \<noteq> []"
    and chosen: "selected = unshown ! (random_index env mod length unshown)"
    and failed: "\<not> set_wallpaper_hyprpaper (hyprctl_env env) mons selected"
  shows "change_wallpaper env mons st =
         \<lparr>returned = Inr False, final_store = st2,
          calls = made @ [Random_Choice selected, Set_Wallpaper_Hyprpaper selected]\<rparr>
     \<and> st2 = (if all_shown_flag st then reset_rotation (now_first env) st else st)
     \<and> (\<forall>f. Mark_Image_Displayed f \<notin> set (calls (change_wallpaper env mons st)))"
proof -
  have run: "change_wallpaper env mons st =
         \<lparr>returned = Inr False, final_store = st2,
          calls = made @ [Random_Choice selected, Set_Wallpaper_Hyprpaper selected]\<rparr>"
    using ne failed by (simp add: change_wallpaper_phases sel select_and_set_def Let_def chosen [symmetric])
  have st2: "st2 = (if all_shown_flag st then reset_rotation (now_first env) st else st)"
    using selecting_store [of env st] sel by simp
  have "set made \<subseteq> {Get_Unshown_Images, Sync_Images}"
    using sel by (auto simp: selecting_def Let_def split: prod.splits if_splits)
  then have "\<forall>f. Mark_Image_Displayed f \<notin> set made"
    by auto
  then show ?thesis
    using st2 by (simp add: run)
qed

theorem failed_activation_skips_recording_witness:
  "selecting (steady_cycle [''a.png'', ''b.jpg''] preload_fails) reset_store =
     (reset_store, [''a.png'', ''b.jpg''], [Get_Unshown_Images])
   \<and> \<not> set_wallpaper_hyprpaper preload_fails [''all''] ''a.png''
   \<and> change_wallpaper (steady_cycle [''a.png'', ''b.jpg''] preload_fails) [''all''] reset_store =
       \<lparr>returned = Inr False, final_store = reset_store,
        calls = [Get_Unshown_Images, Random_Choice ''a.png'', Set_Wallpaper_Hyprpaper ''a.png'']\<rparr>"
proof -
  let ?env = "steady_cycle [''a.png'', ''b.jpg''] preload_fails"
  have sel: "selecting ?env reset_store = (reset_store, [''a.png'', ''b.jpg''], [Get_Unshown_Images])"
    by code_simp
  have ne: "[''a.png'', ''b.jpg''] \<noteq> []"
    by simp
  have chosen: "''a.png'' = [''a.png'', ''b.jpg''] ! (random_index ?env mod length [''a.png'', ''b.jpg''])"
    by code_simp
  have h: "hyprctl_env ?env = preload_fails"
    by (simp add: steady_cycle_def)
  have failed: "\<not> set_wallpaper_hyprpaper (hyprctl_env ?env) [''all''] ''a.png''"
    by code_simp
  from failed_activation_skips_recording [OF sel ne chosen failed] show ?thesis
    using sel failed by (simp add: h)
qed

text \<open>
  C4 as stated fails for a cycle that starts with the flag set: \<^verbatim>\<open>get_unshown_images\<close>
  makes the reset before the image is chosen, so the row of the selected \<^verbatim>\<open>a.png\<close> goes
  from count 1 to count 0 and the flag is cleared, although the activation then fails.
\<close>

theorem failed_activation_cycle_still_resets:
  "all_shown_flag exhausted_store
   \<and> change_wallpaper (steady_cycle [''a.png'', ''b.jpg''] preload_fails) [''all''] exhausted_store =
       \<lparr>returned = Inr False, final_store = reset_store,
        calls = [Get_Unshown_Images, Random_Choice ''a.png'', Set_Wallpaper_Hyprpaper ''a.png'']\<rparr>
   \<and> map display_count (filter (\<lambda>r. filename r = ''a.png'') (wallpaper_history exhausted_store)) = [1]
   \<and> map display_count (filter (\<lambda>r. filename r = ''a.png'') (wallpaper_history reset_store)) = [0]
   \<and> \<not> all_shown_flag reset_store"
  by code_simp

text \<open>
  C7 (as amended). When the first \<^verbatim>\<open>get_unshown_images\<close> returns no candidate,
  \<^verbatim>\<open>change_wallpaper\<close> calls \<^verbatim>\<open>sync_images\<close> once, and calls \<^verbatim>\<open>get_unshown_images\<close> a
  second time only if \<^verbatim>\<open>sync_images\<close> returned true. If the sync failed, or the second list
  is empty too, it returns false after these calls alone (no image chosen, none recorded) and
  leaves the store as the first \<^verbatim>\<open>get_unshown_images\<close> left it.
\<close>

theorem empty_candidates_one_fetch_retry:
  assumes empty: "snd (get_unshown_images (entries_first env) (now_first env) st) = []"
  shows "count_list (calls (change_wallpaper env mons st)) Sync_Images = 1
     \<and> count_list (calls (change_wallpaper env mons st)) Get_Unshown_Images =
         (if sync_result env then 2 else 1)
     \<and> (\<not> sync_result env \<or>
          snd (get_unshown_images (entries_retry env) (now_retry env)
                 (fst (get_unshown_images (entries_first env) (now_first env) st))) = []
        \<longrightarrow> change_wallpaper env mons st =
              \<lparr>returned = Inr False,
               final_store = (if all_shown_flag st then reset_rotation (now_first env) st else st),
               calls = (if sync_result env
                        then [Get_Unshown_Images, Sync_Images, Get_Unshown_Images]
                        else [Get_Unshown_Images, Sync_Images])\<rparr>)"
proof -
  obtain st1 u1 where g1: "get_unshown_images (entries_first env) (now_first env) st = (st1, u1)"
    by (cases "get_unshown_images (entries_first env) (now_first env) st")
  from empty g1 have u1: "u1 = []" by simp
  have s1: "st1 = (if all_shown_flag st then reset_rotation (now_first env) st else st)"
    using store_after_select [of "entries_first env" "now_first env" st] g1 by simp
  obtain st2 u2 where g2: "get_unshown_images (entries_retry env) (now_retry env) st1 = (st2, u2)"
    by (cases "get_unshown_images (entries_retry env) (now_retry env) st1")
  have s2: "st2 = st1"
    using second_select_keeps_store [of "entries_retry env" "now_retry env" "entries_first env" "now_first env" st] g1 g2
    by simp
  have fst1: "fst (get_unshown_images (entries_first env) (now_first env) st) = st1"
    by (simp add: g1)
  have cw: "change_wallpaper env mons st =
      (if sync_result env
       then (if u2 = []
             then \<lparr>returned = Inr False, final_store = st1,
                   calls = [Get_Unshown_Images, Sync_Images, Get_Unshown_Images]\<rparr>
             else select_and_set env mons st1
                    [Get_Unshown_Images, Sync_Images, Get_Unshown_Images] u2)
       else \<lparr>returned = Inr False, final_store = st1, calls = [Get_Unshown_Images, Sync_Images]\<rparr>)"
    by (simp add: change_wallpaper_def g1 u1 g2 s2)
  have syncs: "count_list (calls (change_wallpaper env mons st)) Sync_Images = 1"
    by (simp add: cw calls_select_and_set)
  have gets: "count_list (calls (change_wallpaper env mons st)) Get_Unshown_Images =
      (if sync_result env then 2 else 1)"
    by (simp add: cw calls_select_and_set)
  have fails: "\<not> sync_result env \<or> u2 = [] \<longrightarrow>
      change_wallpaper env mons st =
        \<lparr>returned = Inr False, final_store = st1,
         calls = (if sync_result env
                  then [Get_Unshown_Images, Sync_Images, Get_Unshown_Images]
                  else [Get_Unshown_Images, Sync_Images])\<rparr>"
    by (simp add: cw)
  have u2: "snd (get_unshown_images (entries_retry env) (now_retry env)
      (fst (get_unshown_images (entries_first env) (now_first env) st))) = u2"
    by (simp add: g1 g2)
  show ?thesis
    unfolding u2 using syncs gets fails [unfolded s1] by blast
qed

theorem empty_candidates_one_fetch_retry_witness:
  "snd (get_unshown_images (entries_first (steady_cycle [''wallpaper-history.db''] one_target_fails))
          (now_first (steady_cycle [''wallpaper-history.db''] one_target_fails)) exhausted_store) = []
   \<and> change_wallpaper (steady_cycle [''wallpaper-history.db''] one_target_fails) [''all''] exhausted_store =
       \<lparr>returned = Inr False, final_store = reset_store,
        calls = [Get_Unshown_Images, Sync_Images, Get_Unshown_Images]\<rparr>
   \<and> count_list (calls (change_wallpaper (steady_cycle [''wallpaper-history.db''] one_target_fails)
        [''all''] exhausted_store)) Sync_Images = 1"
proof -
  let ?env = "steady_cycle [''wallpaper-history.db''] one_target_fails"
  have empty: "snd (get_unshown_images (entries_first ?env) (now_first ?env) exhausted_store) = []"
    by code_simp
  have run: "change_wallpaper ?env [''all''] exhausted_store =
       \<lparr>returned = Inr False, final_store = reset_store,
        calls = [Get_Unshown_Images, Sync_Images, Get_Unshown_Images]\<rparr>"
    by code_simp
  from empty_candidates_one_fetch_retry [OF empty, of "[''all'']"] show ?thesis
    using empty run by simp
qed

text \<open>
  C7 as stated fails when \<^verbatim>\<open>sync_images\<close> returns false: the candidates are not computed
  again, and the cycle fails even though the directory holds an image by then.
\<close>

theorem failed_fetch_skips_recompute:
  "snd (get_unshown_images (entries_first failed_sync_cycle) (now_first failed_sync_cycle) fresh_store) = []
   \<and> calls (change_wallpaper failed_sync_cycle [''all''] fresh_store) = [Get_Unshown_Images, Sync_Images]
   \<and> count_list (calls (change_wallpaper failed_sync_cycle [''all''] fresh_store)) Get_Unshown_Images = 1
   \<and> returned (change_wallpaper failed_sync_cycle [''all''] fresh_store) = Inr False
   \<and> snd (get_unshown_images (entries_retry failed_sync_cycle) (now_retry failed_sync_cycle)
            (fst (get_unshown_images (entries_first failed_sync_cycle) (now_first failed_sync_cycle)
                    fresh_store))) = [''a.png'']"
  by code_simp

end
